theory Spec2Isabelle
  imports Main "HOL-Library.Word"
begin

unbundle bit_operations_syntax

section \<open>Data model of drivers/input/touchscreen/rpi-ft5406.c\<close>

type_synonym u8 = "8 word"
type_synonym u16 = "16 word"
type_synonym u32 = "32 word"

text \<open>
  The identity masks \<open>known_ids\<close>, \<open>modified_ids\<close> and \<open>released_ids\<close> are C \<open>int\<close>s
  used as bit sets: 32-bit words.
\<close>

type_synonym c_int = "32 word"

definition MAXIMUM_SUPPORTED_POINTS :: nat where
  "MAXIMUM_SUPPORTED_POINTS = 10"

definition FTS_TOUCH_DOWN :: nat where
  "FTS_TOUCH_DOWN = 0"

definition FTS_TOUCH_UP :: nat where
  "FTS_TOUCH_UP = 1"

definition FTS_TOUCH_CONTACT :: nat where
  "FTS_TOUCH_CONTACT = 2"

text \<open>\<open>struct ft5406_touch\<close>: one six-byte point record.\<close>

record ft5406_touch =
  xh :: u8
  xl :: u8
  yh :: u8
  yl :: u8
  pressure :: u8
  area :: u8

text \<open>
  \<open>struct ft5406_regs\<close>. The C array \<open>point[MAXIMUM_SUPPORTED_POINTS]\<close> is a list; a
  snapshot of the register copy has exactly \<open>MAXIMUM_SUPPORTED_POINTS\<close> entries
  (\<open>regs_wf\<close>).
\<close>

record ft5406_regs =
  device_mode :: u8
  gesture_id :: u8
  num_points :: u8
  point :: "ft5406_touch list"

definition regs_wf :: "ft5406_regs \<Rightarrow> bool" where
  "regs_wf regs = (length (point regs) = MAXIMUM_SUPPORTED_POINTS)"

text \<open>
  What \<open>kthread_run\<close> hands back and \<open>ts->thread\<close> holds: a task, or an error
  pointer (\<open>IS_ERR\<close>).
\<close>

datatype task_ptr = NULL_task | Task nat | ERR_PTR int

fun IS_ERR :: "task_ptr \<Rightarrow> bool" where
  "IS_ERR (ERR_PTR e) = True"
| "IS_ERR _ = False"

text \<open>
  \<open>struct ft5406\<close>, the fields the poll thread and the enable attribute use. The flags
  are \<open>uint8_t\<close> and are tested for being non-zero.
\<close>

record ft5406 =
  thread :: task_ptr
  enable :: bool
  max_x :: u16
  max_y :: u16
  hflip :: u8
  vflip :: u8
  xyswap :: u8

text \<open>
  The calls into the input subsystem, in the order in which the thread makes them. The
  tool of \<open>input_mt_report_slot_state\<close> is always \<open>MT_TOOL_FINGER\<close>; the device is
  always \<open>ts->input_dev\<close>. The \<open>dev_dbg\<close> lines are not part of the trace.
\<close>

datatype abs_code = ABS_MT_POSITION_X | ABS_MT_POSITION_Y

datatype input_call =
    Input_mt_slot nat
  | Input_mt_report_slot_state bool
  | Input_report_abs abs_code int
  | Input_mt_report_pointer_emulation
  | Input_sync

text \<open>
  Reading \<open>regs.point[i]\<close> with \<open>i\<close> beyond the array is undefined behaviour in C: an
  error value of the model.
\<close>

datatype error = OutOfBoundsRead

definition read_point :: "ft5406_regs \<Rightarrow> nat \<Rightarrow> error + ft5406_touch" where
  "read_point regs i =
     (if i < length (point regs) then Inr (point regs ! i) else Inl OutOfBoundsRead)"

section \<open>Decoding one point record (lines 99 to 104)\<close>

text \<open>
  The bytes are promoted to \<open>int\<close>; all values stay below \<open>2 ^ 12\<close>, so the
  unbounded integers of HOL compute what the 32-bit \<open>int\<close> of C does.
\<close>

definition point_x :: "ft5406_touch \<Rightarrow> int" where
  "point_x p = push_bit 8 (uint (xh p) AND 0xf) + uint (xl p)"

definition point_y :: "ft5406_touch \<Rightarrow> int" where
  "point_y p = push_bit 8 (uint (yh p) AND 0xf) + uint (yl p)"

definition point_touchid :: "ft5406_touch \<Rightarrow> nat" where
  "point_touchid p = nat (drop_bit 4 (uint (yh p)) AND 0xf)"

definition point_event_type :: "ft5406_touch \<Rightarrow> nat" where
  "point_event_type p = nat (drop_bit 6 (uint (xh p)) AND 0x03)"

definition ID_TO_BIT :: "nat \<Rightarrow> c_int" where
  "ID_TO_BIT a = push_bit a 1"

section \<open>The coordinate transform (lines 110 to 117)\<close>

text \<open>
  \<open>max_x\<close> and \<open>max_y\<close> are \<open>uint16_t\<close>, promoted to \<open>int\<close>; with a 12-bit coordinate
  the differences lie between \<open>- 4096\<close> and \<open>65534\<close>, far from the limits of a 32-bit
  \<open>int\<close>.
\<close>

definition ft5406_transform :: "ft5406 \<Rightarrow> int \<Rightarrow> int \<Rightarrow> int \<times> int" where
  "ft5406_transform ts x y =
     (let x = (if hflip ts \<noteq> 0 then uint (max_x ts) - 1 - x else x);
          y = (if vflip ts \<noteq> 0 then uint (max_y ts) - 1 - y else y)
      in if xyswap ts \<noteq> 0 then (y, x) else (x, y))"

section \<open>One poll cycle (lines 93 to 159)\<close>

text \<open>The body of the first \<open>for\<close> loop, for the record \<open>p = regs.point[i]\<close>.\<close>

definition point_body :: "ft5406 \<Rightarrow> ft5406_touch \<Rightarrow> c_int \<Rightarrow> c_int \<times> input_call list" where
  "point_body ts p modified_ids =
     (let x = point_x p;
          y = point_y p;
          touchid = point_touchid p;
          event_type = point_event_type p;
          modified_ids = modified_ids OR ID_TO_BIT touchid
      in if event_type = FTS_TOUCH_DOWN \<or> event_type = FTS_TOUCH_CONTACT
         then (case ft5406_transform ts x y of (x, y) \<Rightarrow>
                (modified_ids,
                 [Input_mt_slot touchid,
                  Input_mt_report_slot_state True,
                  Input_report_abs ABS_MT_POSITION_X x,
                  Input_report_abs ABS_MT_POSITION_Y y]))
         else (modified_ids, []))"

text \<open>
  \<open>for (i = 0; i < regs.num_points; i++)\<close>: the bound is the raw \<open>num_points\<close>, the
  source has no other limit on \<open>i\<close>.
\<close>

function point_loop ::
  "ft5406 \<Rightarrow> ft5406_regs \<Rightarrow> nat \<Rightarrow> c_int \<Rightarrow> input_call list \<Rightarrow> error + (c_int \<times> input_call list)"
where
  "point_loop ts regs i modified_ids out =
     (if i < unat (num_points regs)
      then (case read_point regs i of
              Inl e \<Rightarrow> Inl e
            | Inr p \<Rightarrow>
                point_loop ts regs (i + 1)
                  (fst (point_body ts p modified_ids))
                  (out @ snd (point_body ts p modified_ids)))
      else Inr (modified_ids, out))"
  by pat_completeness auto
termination
  by (relation "measure (\<lambda>(ts, regs, i, m, out). unat (num_points regs) - i)") auto

text \<open>
  \<open>for (i = 0; released_ids && i < MAXIMUM_SUPPORTED_POINTS; i++)\<close>: the release loop.
\<close>

function release_loop ::
  "c_int \<Rightarrow> nat \<Rightarrow> c_int \<Rightarrow> input_call list \<Rightarrow> c_int \<times> input_call list"
where
  "release_loop released_ids i modified_ids out =
     (if released_ids \<noteq> 0 \<and> i < MAXIMUM_SUPPORTED_POINTS
      then (if released_ids AND push_bit i 1 \<noteq> 0
            then release_loop released_ids (i + 1)
                   (modified_ids AND NOT (ID_TO_BIT i))
                   (out @ [Input_mt_slot i, Input_mt_report_slot_state False])
            else release_loop released_ids (i + 1) modified_ids out)
      else (modified_ids, out))"
  by pat_completeness auto
termination
  by (relation "measure (\<lambda>(r, i, m, out). MAXIMUM_SUPPORTED_POINTS - i)") auto

text \<open>
  One iteration of the \<open>while\<close> loop after the snapshot \<open>regs\<close> has been taken: the
  result is the new \<open>known_ids\<close> and the calls made. The sleep, the copy of the shared
  buffer into \<open>regs\<close> and the write of 99 into the buffer's count come before it and
  touch neither \<open>regs\<close> nor \<open>known_ids\<close>.
\<close>

definition ft5406_cycle ::
  "ft5406 \<Rightarrow> c_int \<Rightarrow> ft5406_regs \<Rightarrow> error + (c_int \<times> input_call list)"
where
  "ft5406_cycle ts known_ids regs =
     (if \<not> (num_points regs = 99 \<or> (num_points regs = 0 \<and> known_ids = 0))
      then (case point_loop ts regs 0 0 [] of
              Inl e \<Rightarrow> Inl e
            | Inr (modified_ids, out) \<Rightarrow>
                (let released_ids = known_ids AND NOT modified_ids
                 in case release_loop released_ids 0 modified_ids out of
                      (modified_ids, out) \<Rightarrow>
                        Inr (modified_ids,
                             out @ [Input_mt_report_pointer_emulation, Input_sync])))
      else Inr (known_ids, []))"

text \<open>
  The thread: \<open>known_ids\<close> starts at 0 and one cycle runs for each snapshot read until
  \<open>kthread_should_stop\<close>.
\<close>

fun ft5406_run ::
  "ft5406 \<Rightarrow> c_int \<Rightarrow> ft5406_regs list \<Rightarrow> error + (c_int \<times> input_call list)"
where
  "ft5406_run ts known_ids [] = Inr (known_ids, [])"
| "ft5406_run ts known_ids (regs # rest) =
     (case ft5406_cycle ts known_ids regs of
        Inl e \<Rightarrow> Inl e
      | Inr (known_ids', out) \<Rightarrow>
          (case ft5406_run ts known_ids' rest of
             Inl e \<Rightarrow> Inl e
           | Inr (k, out') \<Rightarrow> Inr (k, out @ out')))"

definition ft5406_thread :: "ft5406 \<Rightarrow> ft5406_regs list \<Rightarrow> error + (c_int \<times> input_call list)" where
  "ft5406_thread ts frames = ft5406_run ts 0 frames"

declare point_loop.simps [simp del] release_loop.simps [simp del]

section \<open>The enable attribute (lines 173 to 208)\<close>

text \<open>
  \<open>enable_store\<close>. What the kernel hands back is a parameter: \<open>parsed\<close> is the outcome
  of \<open>kstrtouint\<close> (\<open>Inl\<close> the error code, \<open>Inr\<close> the value), \<open>run_res\<close> is what
  \<open>kthread_run\<close> returns and \<open>stop_res\<close> what \<open>kthread_stop\<close> returns. The result is
  the value returned to the writer and the device state afterwards. The mutex is taken
  and released on every path after the parse and is not modelled.
\<close>

definition enable_store ::
  "ft5406 \<Rightarrow> int + u32 \<Rightarrow> int \<Rightarrow> task_ptr \<Rightarrow> int \<Rightarrow> int \<times> ft5406"
where
  "enable_store ts parsed count run_res stop_res =
     (case parsed of
        Inl error \<Rightarrow> (error, ts)
      | Inr val \<Rightarrow>
          if enable ts = (val \<noteq> 0) then (count, ts)
          else if val \<noteq> 0
          then (let ts = ts\<lparr>thread := run_res\<rparr>
                in if IS_ERR (thread ts) then (count, ts)
                   else (count, ts\<lparr>enable := (val \<noteq> 0)\<rparr>))
          else (let error = stop_res
                in if error \<noteq> 0 then (count, ts)
                   else (count, ts\<lparr>enable := (val \<noteq> 0)\<rparr>)))"

definition enable_show :: "ft5406 \<Rightarrow> bool" where
  "enable_show ts = enable ts"

section \<open>Notions used to state the properties\<close>

text \<open>The records the first loop visits: the first \<open>num_points\<close> entries of the array.\<close>

definition visited_points :: "ft5406_regs \<Rightarrow> ft5406_touch list" where
  "visited_points regs = take (unat (num_points regs)) (point regs)"

text \<open>The mask the first loop builds from a list of records, starting from \<open>m\<close>.\<close>

definition modified_mask :: "ft5406_touch list \<Rightarrow> c_int \<Rightarrow> c_int" where
  "modified_mask ps m = foldl (\<lambda>m p. m OR ID_TO_BIT (point_touchid p)) m ps"

definition down_or_contact :: "ft5406_touch \<Rightarrow> bool" where
  "down_or_contact p =
     (point_event_type p = FTS_TOUCH_DOWN \<or> point_event_type p = FTS_TOUCH_CONTACT)"

text \<open>The calls the loop body makes for one record, and the calls of one release.\<close>

definition point_calls :: "ft5406 \<Rightarrow> ft5406_touch \<Rightarrow> input_call list" where
  "point_calls ts p = snd (point_body ts p 0)"

definition release_calls :: "nat \<Rightarrow> input_call list" where
  "release_calls i = [Input_mt_slot i, Input_mt_report_slot_state False]"

text \<open>
  The position update of a slot, as four calls: select the slot, mark it active, report
  x, report y.
\<close>

definition update_calls :: "nat \<Rightarrow> int \<Rightarrow> int \<Rightarrow> input_call list" where
  "update_calls s x y =
     [Input_mt_slot s,
      Input_mt_report_slot_state True,
      Input_report_abs ABS_MT_POSITION_X x,
      Input_report_abs ABS_MT_POSITION_Y y]"

text \<open>
  Reading a trace the way the input core does: \<open>input_mt_slot\<close> selects the current
  slot, and a slot-state or position report goes to the slot selected last. \<open>cur\<close> is
  the slot selected before the trace starts.
\<close>

fun slot_calls :: "nat \<Rightarrow> input_call list \<Rightarrow> (nat \<times> input_call) list" where
  "slot_calls cur [] = []"
| "slot_calls cur (Input_mt_slot s # cs) = slot_calls s cs"
| "slot_calls cur (Input_mt_report_slot_state a # cs) =
     (cur, Input_mt_report_slot_state a) # slot_calls cur cs"
| "slot_calls cur (Input_report_abs c v # cs) =
     (cur, Input_report_abs c v) # slot_calls cur cs"
| "slot_calls cur (Input_mt_report_pointer_emulation # cs) = slot_calls cur cs"
| "slot_calls cur (Input_sync # cs) = slot_calls cur cs"

fun is_release :: "input_call \<Rightarrow> bool" where
  "is_release (Input_mt_report_slot_state a) = (\<not> a)"
| "is_release _ = False"

fun is_position :: "input_call \<Rightarrow> bool" where
  "is_position (Input_report_abs c v) = True"
| "is_position _ = False"

text \<open>The slots that receive a release, and the slots that receive a position.\<close>

definition released_slots :: "nat \<Rightarrow> input_call list \<Rightarrow> nat list" where
  "released_slots cur cs = map fst (filter (\<lambda>sc. is_release (snd sc)) (slot_calls cur cs))"

definition updated_slots :: "nat \<Rightarrow> input_call list \<Rightarrow> nat list" where
  "updated_slots cur cs = map fst (filter (\<lambda>sc. is_position (snd sc)) (slot_calls cur cs))"

text \<open>
  The contract of the producer, from the comment above the thread: the GPU writes
  between 0 and 10 points, and 99 stands for a snapshot with nothing new.
\<close>

definition frame_in_contract :: "ft5406_regs \<Rightarrow> bool" where
  "frame_in_contract regs =
     (regs_wf regs \<and>
      (num_points regs = 99 \<or> unat (num_points regs) \<le> MAXIMUM_SUPPORTED_POINTS))"

text \<open>
  The transform in the words of the specification (4.2): if \<open>hflip\<close> then
  \<open>x' = max_x - 1 - x\<close>; if \<open>vflip\<close> then \<open>y' = max_y - 1 - y\<close>; if \<open>xyswap\<close> then
  \<open>x'\<close> and \<open>y'\<close> are swapped, after the flips. It is compared with
  \<open>ft5406_transform\<close>, which follows the source.
\<close>

definition spec_transform ::
  "int \<Rightarrow> int \<Rightarrow> bool \<Rightarrow> bool \<Rightarrow> bool \<Rightarrow> int \<Rightarrow> int \<Rightarrow> int \<times> int"
where
  "spec_transform mx my hf vf sw x y =
     (let x' = (if hf then mx - 1 - x else x);
          y' = (if vf then my - 1 - y else y)
      in if sw then (y', x') else (x', y'))"

text \<open>The transform applied to its own result.\<close>

definition transform_twice :: "ft5406 \<Rightarrow> int \<Rightarrow> int \<Rightarrow> int \<times> int" where
  "transform_twice ts x y =
     (case ft5406_transform ts x y of (x', y') \<Rightarrow> ft5406_transform ts x' y')"

section \<open>Concrete inputs\<close>

definition touch :: "u8 \<Rightarrow> u8 \<Rightarrow> u8 \<Rightarrow> u8 \<Rightarrow> ft5406_touch" where
  "touch a b c d = \<lparr>xh = a, xl = b, yh = c, yl = d, pressure = 0, area = 0\<rparr>"

text \<open>A snapshot with the given count whose array starts with \<open>ps\<close>, zero-filled to 10.\<close>

definition frame :: "u8 \<Rightarrow> ft5406_touch list \<Rightarrow> ft5406_regs" where
  "frame n ps =
     \<lparr>device_mode = 0, gesture_id = 0, num_points = n,
      point = ps @ replicate (MAXIMUM_SUPPORTED_POINTS - length ps) (touch 0 0 0 0)\<rparr>"

text \<open>The default 800 by 480 panel, plain and with one of the three flags set.\<close>

definition panel :: ft5406 where
  "panel = \<lparr>thread = Task 0, enable = True, max_x = 800, max_y = 480,
            hflip = 0, vflip = 0, xyswap = 0\<rparr>"

definition panel_hflip :: ft5406 where
  "panel_hflip = panel\<lparr>hflip := 1\<rparr>"

definition panel_vflip :: ft5406 where
  "panel_vflip = panel\<lparr>vflip := 1\<rparr>"

definition panel_swap :: ft5406 where
  "panel_swap = panel\<lparr>xyswap := 1\<rparr>"

section \<open>Facts about the two loops\<close>

lemma bit_ID_TO_BIT: "bit (ID_TO_BIT a) j \<longleftrightarrow> j = a \<and> a < 32"
  by (auto simp add: ID_TO_BIT_def bit_simps)

lemma test_bit_iff: "(w AND push_bit i 1 \<noteq> 0) \<longleftrightarrow> bit (w :: c_int) i"
proof
  assume nz: "w AND push_bit i 1 \<noteq> 0"
  show "bit w i"
  proof (rule ccontr)
    assume n: "\<not> bit w i"
    have "w AND push_bit i 1 = 0"
      by (rule bit_word_eqI) (use n in \<open>auto simp add: bit_simps\<close>)
    with nz show False by simp
  qed
next
  assume b: "bit w i"
  then have "i < 32" by (auto dest: bit_imp_le_length)
  with b have "bit (w AND push_bit i 1) i" by (simp add: bit_simps)
  then show "w AND push_bit i 1 \<noteq> 0" by auto
qed

lemma point_touchid_less: "point_touchid p < 16"
proof -
  have "drop_bit 4 (uint (yh p)) AND 0xf \<le> (0xf :: int)"
    by (rule AND_upper2) simp
  then show ?thesis unfolding point_touchid_def by linarith
qed

lemma fst_point_body: "fst (point_body ts p m) = m OR ID_TO_BIT (point_touchid p)"
  by (simp add: point_body_def Let_def split: prod.splits)

lemma snd_point_body: "snd (point_body ts p m) = point_calls ts p"
  by (simp add: point_body_def point_calls_def Let_def split: prod.splits)

lemma modified_mask_Cons: "modified_mask (p # ps) m = modified_mask ps (m OR ID_TO_BIT (point_touchid p))"
  by (simp add: modified_mask_def)

lemma bit_modified_mask:
  "bit (modified_mask ps m) j \<longleftrightarrow> bit m j \<or> j \<in> point_touchid ` set ps"
proof (induction ps arbitrary: m)
  case Nil
  then show ?case by (simp add: modified_mask_def)
next
  case (Cons p ps)
  have "point_touchid p < 32" using point_touchid_less [of p] by simp
  then show ?case
    by (auto simp add: modified_mask_Cons Cons.IH bit_simps bit_ID_TO_BIT)
qed

lemma point_loop_in_range:
  "unat (num_points regs) \<le> length (point regs) \<Longrightarrow>
   point_loop ts regs i m out =
     Inr (modified_mask (drop i (visited_points regs)) m,
          out @ concat (map (point_calls ts) (drop i (visited_points regs))))"
proof (induction ts regs i m out rule: point_loop.induct)
  case (1 ts regs i m out)
  show ?case
  proof (cases "i < unat (num_points regs)")
    case True
    with "1.prems" have il: "i < length (point regs)" by simp
    have d: "drop i (visited_points regs) = point regs ! i # drop (Suc i) (visited_points regs)"
      using True il by (simp add: visited_points_def Cons_nth_drop_Suc [symmetric])
    have r: "read_point regs i = Inr (point regs ! i)"
      using il by (simp add: read_point_def)
    show ?thesis
      using True "1.IH" [OF True r] "1.prems"
      by (subst point_loop.simps) (simp add: r d fst_point_body snd_point_body modified_mask_Cons)
  next
    case False
    then have "drop i (visited_points regs) = []"
      by (simp add: visited_points_def)
    with False show ?thesis
      by (subst point_loop.simps) (simp add: modified_mask_def)
  qed
qed

lemma point_loop_out_of_range:
  "i < unat (num_points regs) \<Longrightarrow> length (point regs) < unat (num_points regs) \<Longrightarrow>
   point_loop ts regs i m out = Inl OutOfBoundsRead"
proof (induction ts regs i m out rule: point_loop.induct)
  case (1 ts regs i m out)
  show ?case
  proof (cases "i < length (point regs)")
    case True
    then have r: "read_point regs i = Inr (point regs ! i)"
      by (simp add: read_point_def)
    from True "1.prems" have "i + 1 < unat (num_points regs)" by simp
    then show ?thesis
      using "1.IH" [OF "1.prems"(1) r] "1.prems"
      by (subst point_loop.simps) (simp add: r)
  next
    case False
    then show ?thesis
      using "1.prems" by (subst point_loop.simps) (simp add: read_point_def)
  qed
qed

lemma release_loop_eq:
  "released AND m = 0 \<Longrightarrow> i \<le> MAXIMUM_SUPPORTED_POINTS \<Longrightarrow>
   release_loop released i m out =
     (m, out @ concat (map release_calls (filter (bit released) [i..<MAXIMUM_SUPPORTED_POINTS])))"
proof (induction released i m out rule: release_loop.induct)
  case (1 released i m out)
  show ?case
  proof (cases "released \<noteq> 0 \<and> i < MAXIMUM_SUPPORTED_POINTS")
    case True
    then have u: "[i..<MAXIMUM_SUPPORTED_POINTS] = i # [Suc i..<MAXIMUM_SUPPORTED_POINTS]"
      by (simp add: upt_conv_Cons)
    show ?thesis
    proof (cases "bit released i")
      case b: True
      have nb: "\<not> bit m i"
      proof
        assume "bit m i"
        with b have "bit (released AND m) i" by (simp add: bit_simps)
        with "1.prems"(1) show False by simp
      qed
      have e: "m AND NOT (ID_TO_BIT i) = m"
      proof (rule bit_word_eqI)
        fix n
        show "bit (m AND NOT (ID_TO_BIT i)) n = bit m n"
          using nb bit_ID_TO_BIT [of i n]
          by (auto simp add: bit_and_iff bit_not_iff dest: bit_imp_le_length)
      qed
      have t: "released AND push_bit i 1 \<noteq> 0"
        using b test_bit_iff [of released i] by blast
      have p1: "released AND (m AND NOT (ID_TO_BIT i)) = 0"
        using "1.prems"(1) by (simp only: e)
      have p2: "i + 1 \<le> MAXIMUM_SUPPORTED_POINTS"
        using True by simp
      have step: "release_loop released i m out =
          release_loop released (i + 1) (m AND NOT (ID_TO_BIT i))
            (out @ release_calls i)"
        using True t by (subst release_loop.simps) (simp add: release_calls_def)
      show ?thesis
        using "1.IH"(1) [OF True t p1 p2] b
        by (simp add: step e u release_calls_def [of i])
    next
      case b: False
      have t: "\<not> (released AND push_bit i 1 \<noteq> 0)"
        using b test_bit_iff [of released i] by blast
      have p2: "i + 1 \<le> MAXIMUM_SUPPORTED_POINTS"
        using True by simp
      have step: "release_loop released i m out = release_loop released (i + 1) m out"
        using True t by (subst release_loop.simps) simp
      show ?thesis
        using "1.IH"(2) [OF True t "1.prems"(1) p2] b by (simp add: step u)
    qed
  next
    case False
    then consider "released = 0" | "i = MAXIMUM_SUPPORTED_POINTS"
      using "1.prems"(2) by fastforce
    then show ?thesis
    proof cases
      case 1
      then show ?thesis by (subst release_loop.simps) simp
    next
      case 2
      then show ?thesis by (subst release_loop.simps) simp
    qed
  qed
qed

lemma point_calls_eq:
  "point_calls ts p =
     (if down_or_contact p
      then (case ft5406_transform ts (point_x p) (point_y p) of
              (x, y) \<Rightarrow> update_calls (point_touchid p) x y)
      else [])"
  by (simp add: point_calls_def point_body_def down_or_contact_def update_calls_def Let_def
      split: prod.splits)

lemma released_mask_disjoint: "(known AND NOT m) AND m = (0 :: c_int)"
  by (rule bit_word_eqI) (auto simp add: bit_and_iff bit_not_iff)

lemma cycle_processed:
  assumes ns: "\<not> (num_points regs = 99 \<or> (num_points regs = 0 \<and> known = 0))"
    and le: "unat (num_points regs) \<le> length (point regs)"
  shows "ft5406_cycle ts known regs =
     Inr (modified_mask (visited_points regs) 0,
          concat (map (point_calls ts) (visited_points regs)) @
          concat (map release_calls
            (filter (bit (known AND NOT (modified_mask (visited_points regs) 0)))
               [0..<MAXIMUM_SUPPORTED_POINTS])) @
          [Input_mt_report_pointer_emulation, Input_sync])"
proof -
  have pl: "point_loop ts regs 0 0 [] =
      Inr (modified_mask (visited_points regs) 0,
           concat (map (point_calls ts) (visited_points regs)))"
    using point_loop_in_range [OF le, of ts 0 0 "[]"] by simp
  show ?thesis
    using ns
    by (simp add: ft5406_cycle_def pl release_loop_eq [OF released_mask_disjoint])
qed

lemma cycle_out_of_range:
  assumes ns: "\<not> (num_points regs = 99 \<or> (num_points regs = 0 \<and> known = 0))"
    and gt: "length (point regs) < unat (num_points regs)"
  shows "ft5406_cycle ts known regs = Inl OutOfBoundsRead"
proof -
  from gt have "0 < unat (num_points regs)" by simp
  then have "point_loop ts regs 0 0 [] = Inl OutOfBoundsRead"
    using gt by (rule point_loop_out_of_range)
  with ns show ?thesis by (simp add: ft5406_cycle_def)
qed

lemma cycle_Inr_cases:
  assumes "ft5406_cycle ts known regs = Inr (k', evs)"
  obtains
    (skipped) "num_points regs = 99 \<or> (num_points regs = 0 \<and> known = 0)"
      "k' = known" "evs = []"
  | (processed) "\<not> (num_points regs = 99 \<or> (num_points regs = 0 \<and> known = 0))"
      "unat (num_points regs) \<le> length (point regs)"
      "k' = modified_mask (visited_points regs) 0"
      "evs = concat (map (point_calls ts) (visited_points regs)) @
          concat (map release_calls
            (filter (bit (known AND NOT k')) [0..<MAXIMUM_SUPPORTED_POINTS])) @
          [Input_mt_report_pointer_emulation, Input_sync]"
proof (cases "num_points regs = 99 \<or> (num_points regs = 0 \<and> known = 0)")
  case True
  with assms have "k' = known \<and> evs = []" by (simp add: ft5406_cycle_def)
  with True show ?thesis using skipped by blast
next
  case False
  show ?thesis
  proof (cases "unat (num_points regs) \<le> length (point regs)")
    case le: True
    from assms cycle_processed [OF False le, of ts]
    have k: "k' = modified_mask (visited_points regs) 0" by simp
    from assms cycle_processed [OF False le, of ts]
    have "evs = concat (map (point_calls ts) (visited_points regs)) @
          concat (map release_calls
            (filter (bit (known AND NOT k')) [0..<MAXIMUM_SUPPORTED_POINTS])) @
          [Input_mt_report_pointer_emulation, Input_sync]"
      unfolding k by simp
    with k show ?thesis by (rule processed [OF False le])
  next
    case gt: False
    then have "length (point regs) < unat (num_points regs)" by simp
    from cycle_out_of_range [OF False this, of ts] assms show ?thesis by simp
  qed
qed

lemma point_loop_Inr_in_range:
  assumes "point_loop ts regs 0 0 [] = Inr (m, out)"
  shows "unat (num_points regs) \<le> length (point regs) \<and> m = modified_mask (visited_points regs) 0"
proof (cases "unat (num_points regs) \<le> length (point regs)")
  case True
  with assms point_loop_in_range [OF True, of ts 0 0 "[]"] show ?thesis by simp
next
  case False
  then have gt: "length (point regs) < unat (num_points regs)" by simp
  then have "0 < unat (num_points regs)" by simp
  from point_loop_out_of_range [OF this gt, of ts 0 "[]"] assms show ?thesis by simp
qed

subsection \<open>Reading the trace of a cycle\<close>

lemma slot_calls_update:
  "slot_calls c (update_calls s x y @ rest) =
     (s, Input_mt_report_slot_state True) #
     (s, Input_report_abs ABS_MT_POSITION_X x) #
     (s, Input_report_abs ABS_MT_POSITION_Y y) # slot_calls s rest"
  by (simp add: update_calls_def)

lemma slot_calls_release:
  "slot_calls c (release_calls i @ rest) =
     (i, Input_mt_report_slot_state False) # slot_calls i rest"
  by (simp add: release_calls_def)

lemma released_slots_point:
  "released_slots c (point_calls ts p @ rest) =
     released_slots (if down_or_contact p then point_touchid p else c) rest"
  by (simp add: point_calls_eq released_slots_def slot_calls_update split: prod.splits)

lemma updated_slots_point:
  "updated_slots c (point_calls ts p @ rest) =
     (if down_or_contact p
      then point_touchid p # point_touchid p # updated_slots (point_touchid p) rest
      else updated_slots c rest)"
  by (simp add: point_calls_eq updated_slots_def slot_calls_update split: prod.splits)

lemma released_slots_points:
  "(\<And>c. released_slots c rest = R) \<Longrightarrow>
   released_slots c (concat (map (point_calls ts) ps) @ rest) = R"
  by (induction ps arbitrary: c) (simp_all add: released_slots_point)

lemma updated_slots_points:
  "(\<And>c. updated_slots c rest = []) \<Longrightarrow>
   set (updated_slots c (concat (map (point_calls ts) ps) @ rest)) =
     point_touchid ` {p \<in> set ps. down_or_contact p}"
  by (induction ps arbitrary: c) (auto simp add: updated_slots_point)

lemma released_slots_releases:
  "released_slots c
     (concat (map release_calls is) @ [Input_mt_report_pointer_emulation, Input_sync]) = is"
  by (induction "is" arbitrary: c) (simp_all add: released_slots_def slot_calls_release)

lemma updated_slots_releases:
  "updated_slots c
     (concat (map release_calls is) @ [Input_mt_report_pointer_emulation, Input_sync]) = []"
  by (induction "is" arbitrary: c) (simp_all add: updated_slots_def slot_calls_release)

lemma slot_calls_append_cases:
  "x \<in> set (slot_calls c (a @ b)) \<Longrightarrow>
   x \<in> set (slot_calls c a) \<or> (\<exists>c'. x \<in> set (slot_calls c' b))"
  by (induction c a rule: slot_calls.induct) auto

lemma released_slots_append_cases:
  "i \<in> set (released_slots c (a @ b)) \<Longrightarrow>
   i \<in> set (released_slots c a) \<or> (\<exists>c'. i \<in> set (released_slots c' b))"
proof -
  assume "i \<in> set (released_slots c (a @ b))"
  then obtain call where m: "(i, call) \<in> set (slot_calls c (a @ b))" and r: "is_release call"
    by (auto simp add: released_slots_def)
  from slot_calls_append_cases [OF m] r show ?thesis
    by (force simp add: released_slots_def)
qed

text \<open>The slots released and the slots updated by one cycle.\<close>

lemma cycle_released_slots:
  assumes "ft5406_cycle ts known regs = Inr (k', evs)"
  shows "released_slots c evs =
     (if num_points regs = 99 \<or> (num_points regs = 0 \<and> known = 0) then []
      else filter (bit (known AND NOT k')) [0..<MAXIMUM_SUPPORTED_POINTS])"
  using assms
proof (cases rule: cycle_Inr_cases)
  case skipped
  then show ?thesis by (simp add: released_slots_def)
next
  case processed
  show ?thesis
    unfolding processed(4)
    using processed(1) by (simp add: released_slots_points released_slots_releases)
qed

lemma cycle_updated_slots:
  assumes "ft5406_cycle ts known regs = Inr (k', evs)"
  shows "set (updated_slots c evs) =
     (if num_points regs = 99 \<or> (num_points regs = 0 \<and> known = 0) then {}
      else point_touchid ` {p \<in> set (visited_points regs). down_or_contact p})"
  using assms
proof (cases rule: cycle_Inr_cases)
  case skipped
  then show ?thesis by (simp add: updated_slots_def)
next
  case processed
  show ?thesis
    unfolding processed(4)
    using processed(1) by (auto simp add: updated_slots_points updated_slots_releases)
qed

section \<open>The poll cycle: stale and idle frames\<close>

text \<open>
  C3: when \<open>num_points\<close> is 99, and when \<open>num_points\<close> is 0 while \<open>known_ids\<close> is 0, the
  cycle does nothing: \<open>known_ids\<close> keeps its value and no call into the input subsystem
  is made (no update, no release, no pointer emulation, no sync).
\<close>

theorem cycle_stale_or_idle_noop:
  "num_points regs = 99 \<or> (num_points regs = 0 \<and> known_ids = 0) \<Longrightarrow>
   ft5406_cycle ts known_ids regs = Inr (known_ids, [])"
  by (simp add: ft5406_cycle_def)

theorem cycle_stale_or_idle_noop_witness:
  "num_points (frame 99 []) = 99 \<and> ft5406_cycle panel 8 (frame 99 []) = Inr (8, [])"
proof -
  have h: "num_points (frame 99 []) = 99 \<or> (num_points (frame 99 []) = 0 \<and> (8 :: c_int) = 0)"
    by (simp add: frame_def)
  show ?thesis
    using cycle_stale_or_idle_noop [OF h, of panel] by (simp add: frame_def)
qed

lemma concat_point_calls:
  "concat (map (point_calls ts) ps) =
   concat (map (\<lambda>p. case ft5406_transform ts (point_x p) (point_y p) of
                        (x, y) \<Rightarrow> update_calls (point_touchid p) x y)
             (filter down_or_contact ps))"
  by (induction ps) (simp_all add: point_calls_eq)

lemma filter_released_bits:
  "filter (bit (known AND NOT k')) [0..<MAXIMUM_SUPPORTED_POINTS] =
   filter (\<lambda>i. bit (known :: c_int) i \<and> \<not> bit (k' :: c_int) i) [0..<MAXIMUM_SUPPORTED_POINTS]"
  by (rule filter_cong) (auto simp add: bit_and_iff bit_not_iff MAXIMUM_SUPPORTED_POINTS_def)

section \<open>Updates and releases of one cycle\<close>

text \<open>
  C7: in every poll cycle the slots that receive a position update and the slots that
  receive a release are disjoint.
\<close>

theorem update_release_disjoint:
  assumes "ft5406_cycle ts known regs = Inr (k', evs)"
  shows "set (updated_slots c evs) \<inter> set (released_slots c evs) = {}"
  using assms
proof (cases rule: cycle_Inr_cases)
  case skipped
  then show ?thesis by (simp add: updated_slots_def)
next
  case processed
  have "False" if u: "s \<in> set (updated_slots c evs)" and r: "s \<in> set (released_slots c evs)" for s
  proof -
    from u processed(1) have "s \<in> point_touchid ` set (visited_points regs)"
      by (auto simp add: cycle_updated_slots [OF assms])
    then have "bit k' s"
      by (simp add: processed(3) bit_modified_mask)
    moreover from r processed(1) have "bit (known AND NOT k') s"
      by (auto simp add: cycle_released_slots [OF assms])
    ultimately show False by (simp add: bit_and_iff bit_not_iff)
  qed
  then show ?thesis by blast
qed

theorem update_release_disjoint_witness:
  "ft5406_cycle panel 8 (frame 1 [touch 0 100 0x50 200]) =
     Inr (32, update_calls 5 100 200 @ release_calls 3 @
              [Input_mt_report_pointer_emulation, Input_sync]) \<and>
   set (updated_slots 0 (update_calls 5 100 200 @ release_calls 3 @
          [Input_mt_report_pointer_emulation, Input_sync])) = {5} \<and>
   set (released_slots 0 (update_calls 5 100 200 @ release_calls 3 @
          [Input_mt_report_pointer_emulation, Input_sync])) = {3} \<and>
   set (updated_slots 0 (update_calls 5 100 200 @ release_calls 3 @
          [Input_mt_report_pointer_emulation, Input_sync])) \<inter>
   set (released_slots 0 (update_calls 5 100 200 @ release_calls 3 @
          [Input_mt_report_pointer_emulation, Input_sync])) = {}"
proof -
  have h: "ft5406_cycle panel 8 (frame 1 [touch 0 100 0x50 200]) =
     Inr (32, update_calls 5 100 200 @ release_calls 3 @
              [Input_mt_report_pointer_emulation, Input_sync])"
    by code_simp
  show ?thesis
    using h update_release_disjoint [OF h, of 0]
    by (simp add: updated_slots_def released_slots_def update_calls_def release_calls_def)
qed

text \<open>
  C8: a cycle that makes calls makes them in this order: the position updates of the
  Down and Contact records, in the order of the records; then the releases, by rising
  slot; then the pointer emulation; then the sync.
\<close>

theorem cycle_call_order:
  assumes "ft5406_cycle ts known regs = Inr (k', evs)" and "evs \<noteq> []"
  shows "evs =
     concat (map (\<lambda>p. case ft5406_transform ts (point_x p) (point_y p) of
                          (x, y) \<Rightarrow> update_calls (point_touchid p) x y)
               (filter down_or_contact (visited_points regs))) @
     concat (map release_calls
               (filter (\<lambda>i. bit known i \<and> \<not> bit k' i) [0..<MAXIMUM_SUPPORTED_POINTS])) @
     [Input_mt_report_pointer_emulation, Input_sync]"
  using assms(1)
proof (cases rule: cycle_Inr_cases)
  case skipped
  with assms(2) show ?thesis by simp
next
  case processed
  show ?thesis
    by (subst processed(4)) (simp only: concat_point_calls filter_released_bits)
qed

theorem cycle_call_order_witness:
  "ft5406_cycle panel 8 (frame 1 [touch 0 100 0x50 200]) =
     Inr (32, [Input_mt_slot 5, Input_mt_report_slot_state True,
               Input_report_abs ABS_MT_POSITION_X 100, Input_report_abs ABS_MT_POSITION_Y 200,
               Input_mt_slot 3, Input_mt_report_slot_state False,
               Input_mt_report_pointer_emulation, Input_sync]) \<and>
   [Input_mt_slot 5, Input_mt_report_slot_state True,
    Input_report_abs ABS_MT_POSITION_X 100, Input_report_abs ABS_MT_POSITION_Y 200,
    Input_mt_slot 3, Input_mt_report_slot_state False,
    Input_mt_report_pointer_emulation, Input_sync] =
     concat (map (\<lambda>p. case ft5406_transform panel (point_x p) (point_y p) of
                          (x, y) \<Rightarrow> update_calls (point_touchid p) x y)
               (filter down_or_contact (visited_points (frame 1 [touch 0 100 0x50 200])))) @
     concat (map release_calls
               (filter (\<lambda>i. bit (8 :: c_int) i \<and> \<not> bit (32 :: c_int) i)
                  [0..<MAXIMUM_SUPPORTED_POINTS])) @
     [Input_mt_report_pointer_emulation, Input_sync]"
proof -
  have h: "ft5406_cycle panel 8 (frame 1 [touch 0 100 0x50 200]) =
     Inr (32, [Input_mt_slot 5, Input_mt_report_slot_state True,
               Input_report_abs ABS_MT_POSITION_X 100, Input_report_abs ABS_MT_POSITION_Y 200,
               Input_mt_slot 3, Input_mt_report_slot_state False,
               Input_mt_report_pointer_emulation, Input_sync])"
    by code_simp
  have ne: "[Input_mt_slot 5, Input_mt_report_slot_state True,
               Input_report_abs ABS_MT_POSITION_X 100, Input_report_abs ABS_MT_POSITION_Y 200,
               Input_mt_slot 3, Input_mt_report_slot_state False,
               Input_mt_report_pointer_emulation, Input_sync] \<noteq> []"
    by simp
  show ?thesis
    using h cycle_call_order [OF h ne] by simp
qed

text \<open>
  C10: releases go to slots 0 to 9 only. An id from 10 upwards (10 to 15 fit the four-bit
  field) that is in \<open>known_ids\<close> and is not among the ids of the records of a processed
  snapshot leaves \<open>known_ids\<close> in that cycle, and no release is made for it.
\<close>

theorem release_only_below_maximum:
  assumes "ft5406_cycle ts known regs = Inr (k', evs)"
  shows "(\<forall>s \<in> set (released_slots c evs). s < MAXIMUM_SUPPORTED_POINTS) \<and>
    (\<forall>i. MAXIMUM_SUPPORTED_POINTS \<le> i \<and> bit known i \<and> num_points regs \<noteq> 99 \<and>
         i \<notin> point_touchid ` set (visited_points regs) \<longrightarrow>
         \<not> bit k' i \<and> i \<notin> set (released_slots c evs))"
proof -
  have a: "\<forall>s \<in> set (released_slots c evs). s < MAXIMUM_SUPPORTED_POINTS"
    by (auto simp add: cycle_released_slots [OF assms])
  have b: "\<not> bit k' i"
    if "bit known i" "num_points regs \<noteq> 99" "i \<notin> point_touchid ` set (visited_points regs)" for i
    using assms
  proof (cases rule: cycle_Inr_cases)
    case skipped
    with that show ?thesis by auto
  next
    case processed
    with that show ?thesis by (simp add: bit_modified_mask)
  qed
  from a b show ?thesis by fastforce
qed

theorem release_only_below_maximum_witness:
  "ft5406_cycle panel 0x1000 (frame 0 []) =
     Inr (0, [Input_mt_report_pointer_emulation, Input_sync]) \<and>
   MAXIMUM_SUPPORTED_POINTS \<le> 12 \<and> bit (0x1000 :: c_int) 12 \<and>
   num_points (frame 0 []) \<noteq> 99 \<and>
   12 \<notin> point_touchid ` set (visited_points (frame 0 [])) \<and>
   \<not> bit (0 :: c_int) 12 \<and>
   12 \<notin> set (released_slots 0 [Input_mt_report_pointer_emulation, Input_sync])"
proof -
  have h: "ft5406_cycle panel 0x1000 (frame 0 []) =
     Inr (0, [Input_mt_report_pointer_emulation, Input_sync])"
    by code_simp
  have b: "bit (0x1000 :: c_int) 12"
    by (simp add: bit_iff_odd)
  have v: "visited_points (frame 0 []) = []"
    by (simp add: visited_points_def frame_def)
  have n: "num_points (frame 0 []) \<noteq> 99"
    by (simp add: frame_def)
  show ?thesis
    using h b n release_only_below_maximum [OF h, of 0]
    by (simp add: v MAXIMUM_SUPPORTED_POINTS_def released_slots_def)
qed

section \<open>The coordinate transform\<close>

lemma transform_refines_spec:
  "ft5406_transform ts x y =
     spec_transform (uint (max_x ts)) (uint (max_y ts))
       (hflip ts \<noteq> 0) (vflip ts \<noteq> 0) (xyswap ts \<noteq> 0) x y"
  by (simp add: ft5406_transform_def spec_transform_def Let_def)

lemma nibble_byte_range: "0 \<le> push_bit 8 (uint (h :: u8) AND 0xf) + uint (l :: u8) \<and>
   push_bit 8 (uint h AND 0xf) + uint l < 4096"
proof -
  have a: "uint h AND 0xf \<le> 0xf"
    by (rule AND_upper2) simp
  have b: "0 \<le> uint h AND 0xf"
    by simp
  have c: "uint l < 256"
    using uint_lt2p [of l] by simp
  have d: "push_bit 8 (uint h AND 0xf) = (uint h AND 0xf) * 256"
    by (simp add: push_bit_eq_mult)
  have e: "0 \<le> uint l"
    by simp
  from a b c e show ?thesis
    unfolding d by linarith
qed

lemma point_xy_range:
  "0 \<le> point_x p \<and> point_x p < 4096 \<and> 0 \<le> point_y p \<and> point_y p < 4096"
  using nibble_byte_range [of "xh p" "xl p"] nibble_byte_range [of "yh p" "yl p"]
  by (simp add: point_x_def point_y_def)

lemma flip_in_int_range:
  "0 \<le> (m :: int) \<Longrightarrow> m < 65536 \<Longrightarrow> 0 \<le> v \<Longrightarrow> v < 4096 \<Longrightarrow>
   - (2 ^ 31) \<le> m - 1 - v \<and> m - 1 - v < 2 ^ 31"
  by simp

lemma transform_in_int_range:
  assumes "0 \<le> x" "x < 4096" "0 \<le> y" "y < 4096"
  shows "- (2 ^ 31) \<le> fst (ft5406_transform ts x y) \<and> fst (ft5406_transform ts x y) < 2 ^ 31 \<and>
         - (2 ^ 31) \<le> snd (ft5406_transform ts x y) \<and> snd (ft5406_transform ts x y) < 2 ^ 31"
proof -
  have mx: "0 \<le> uint (max_x ts)" "uint (max_x ts) < 65536"
    using uint_lt2p [of "max_x ts"] by simp_all
  have my: "0 \<le> uint (max_y ts)" "uint (max_y ts) < 65536"
    using uint_lt2p [of "max_y ts"] by simp_all
  note fx = flip_in_int_range [OF mx assms(1,2)]
  note fy = flip_in_int_range [OF my assms(3,4)]
  show ?thesis
    using fx fy assms by (auto simp add: ft5406_transform_def Let_def)
qed

text \<open>
  C6: the position reported for a Down or Contact record is the one the specification
  gives: \<open>max_x - 1 - x\<close> under \<open>hflip\<close>, \<open>max_y - 1 - y\<close> under \<open>vflip\<close>, the two swapped
  under \<open>xyswap\<close> after the flips. With \<open>hflip\<close>, no swap and \<open>max_x = 800\<close>, the raw
  \<open>x = 100\<close> becomes 699.
\<close>

theorem reported_position_as_specified:
  "(ft5406_cycle ts known regs = Inr (k', evs) \<and>
    \<not> (num_points regs = 99 \<or> (num_points regs = 0 \<and> known = 0)) \<and>
    j < unat (num_points regs) \<and> down_or_contact (point regs ! j) \<longrightarrow>
    (\<exists>pre post. evs =
       pre @
       (case spec_transform (uint (max_x ts)) (uint (max_y ts))
               (hflip ts \<noteq> 0) (vflip ts \<noteq> 0) (xyswap ts \<noteq> 0)
               (point_x (point regs ! j)) (point_y (point regs ! j)) of
          (x', y') \<Rightarrow> update_calls (point_touchid (point regs ! j)) x' y') @
       post)) \<and>
   (hflip ts \<noteq> 0 \<and> xyswap ts = 0 \<and> max_x ts = 800 \<longrightarrow>
      fst (ft5406_transform ts 100 y) = 699)"
proof (intro conjI impI)
  assume a: "ft5406_cycle ts known regs = Inr (k', evs) \<and>
    \<not> (num_points regs = 99 \<or> (num_points regs = 0 \<and> known = 0)) \<and>
    j < unat (num_points regs) \<and> down_or_contact (point regs ! j)"
  let ?p = "point regs ! j"
  let ?v = "visited_points regs"
  from a have cyc: "ft5406_cycle ts known regs = Inr (k', evs)" by simp
  from cyc show "\<exists>pre post. evs =
       pre @
       (case spec_transform (uint (max_x ts)) (uint (max_y ts))
               (hflip ts \<noteq> 0) (vflip ts \<noteq> 0) (xyswap ts \<noteq> 0)
               (point_x ?p) (point_y ?p) of
          (x', y') \<Rightarrow> update_calls (point_touchid ?p) x' y') @
       post"
  proof (cases rule: cycle_Inr_cases)
    case skipped
    with a show ?thesis by simp
  next
    case processed
    from a processed(2) have jl: "j < length ?v"
      by (simp add: visited_points_def)
    have nth: "?v ! j = ?p"
      using a by (simp add: visited_points_def)
    have split: "?v = take j ?v @ ?p # drop (Suc j) ?v"
      using id_take_nth_drop [OF jl] nth by simp
    have pc: "point_calls ts ?p =
        (case spec_transform (uint (max_x ts)) (uint (max_y ts))
               (hflip ts \<noteq> 0) (vflip ts \<noteq> 0) (xyswap ts \<noteq> 0)
               (point_x ?p) (point_y ?p) of
          (x', y') \<Rightarrow> update_calls (point_touchid ?p) x' y')"
      using a by (simp add: point_calls_eq transform_refines_spec)
    have "concat (map (point_calls ts) ?v) =
        concat (map (point_calls ts) (take j ?v)) @ point_calls ts ?p @
        concat (map (point_calls ts) (drop (Suc j) ?v))"
      by (subst split) simp
    then have "evs = concat (map (point_calls ts) (take j ?v)) @ point_calls ts ?p @
        (concat (map (point_calls ts) (drop (Suc j) ?v)) @
         concat (map release_calls
            (filter (bit (known AND NOT k')) [0..<MAXIMUM_SUPPORTED_POINTS])) @
         [Input_mt_report_pointer_emulation, Input_sync])"
      by (simp add: processed(4))
    then show ?thesis
      unfolding pc by blast
  qed
next
  assume "hflip ts \<noteq> 0 \<and> xyswap ts = 0 \<and> max_x ts = 800"
  then show "fst (ft5406_transform ts 100 y) = 699"
    by (simp add: ft5406_transform_def Let_def)
qed

theorem reported_position_as_specified_witness:
  "ft5406_cycle panel_hflip 0 (frame 1 [touch 0 100 0x30 200]) =
     Inr (8, update_calls 3 699 200 @ [Input_mt_report_pointer_emulation, Input_sync]) \<and>
   (0 :: nat) < unat (num_points (frame 1 [touch 0 100 0x30 200])) \<and>
   down_or_contact (point (frame 1 [touch 0 100 0x30 200]) ! 0) \<and>
   (\<exists>pre post. update_calls 3 699 200 @ [Input_mt_report_pointer_emulation, Input_sync] =
      pre @ update_calls 3 699 200 @ post) \<and>
   hflip panel_hflip \<noteq> 0 \<and> xyswap panel_hflip = 0 \<and> max_x panel_hflip = 800 \<and>
   fst (ft5406_transform panel_hflip 100 200) = 699"
proof -
  let ?f = "frame 1 [touch 0 100 0x30 200]"
  have h: "ft5406_cycle panel_hflip 0 ?f =
     Inr (8, update_calls 3 699 200 @ [Input_mt_report_pointer_emulation, Input_sync])"
    by code_simp
  have n: "num_points ?f = 1" "point ?f ! 0 = touch 0 100 0x30 200"
    by (simp_all add: frame_def)
  have d: "down_or_contact (touch 0 100 0x30 200)"
    by (simp add: down_or_contact_def point_event_type_def touch_def FTS_TOUCH_DOWN_def)
  have c: "hflip panel_hflip \<noteq> 0" "xyswap panel_hflip = 0" "max_x panel_hflip = 800"
    by (simp_all add: panel_hflip_def panel_def)
  have s: "spec_transform (uint (max_x panel_hflip)) (uint (max_y panel_hflip))
      (hflip panel_hflip \<noteq> 0) (vflip panel_hflip \<noteq> 0) (xyswap panel_hflip \<noteq> 0)
      (point_x (touch 0 100 0x30 200)) (point_y (touch 0 100 0x30 200)) = (699, 200)"
    by (simp add: spec_transform_def panel_hflip_def panel_def point_x_def point_y_def touch_def)
  have i: "point_touchid (touch 0 100 0x30 200) = 3"
    by (simp add: point_touchid_def touch_def)
  have pre: "ft5406_cycle panel_hflip 0 ?f =
       Inr (8, update_calls 3 699 200 @ [Input_mt_report_pointer_emulation, Input_sync]) \<and>
     \<not> (num_points ?f = 99 \<or> (num_points ?f = 0 \<and> (0 :: c_int) = 0)) \<and>
     0 < unat (num_points ?f) \<and> down_or_contact (point ?f ! 0)"
    using h d by (simp add: n)
  note t1 = reported_position_as_specified
      [of panel_hflip 0 ?f 8
          "update_calls 3 699 200 @ [Input_mt_report_pointer_emulation, Input_sync]" 0 200,
       THEN conjunct1, THEN mp, OF pre]
  have e: "\<exists>pre post. update_calls 3 699 200 @ [Input_mt_report_pointer_emulation, Input_sync] =
      pre @ update_calls 3 699 200 @ post"
    using t1 by (simp add: n s i)
  have pre2: "hflip panel_hflip \<noteq> 0 \<and> xyswap panel_hflip = 0 \<and> max_x panel_hflip = 800"
    using c by simp
  note t2 = reported_position_as_specified
      [of panel_hflip 0 ?f 8
          "update_calls 3 699 200 @ [Input_mt_report_pointer_emulation, Input_sync]" 0 200,
       THEN conjunct2, THEN mp, OF pre2]
  show ?thesis
    using h d c e t2 by (simp add: n)
qed

text \<open>
  C9: a flip applied twice gives back the coordinate, and the swap applied twice gives
  back the pair: with \<open>hflip\<close> and no swap the transform applied twice returns the
  original \<open>x\<close>, with \<open>vflip\<close> and no swap the original \<open>y\<close>, and with the swap alone
  the original pair.
\<close>

theorem flips_and_swap_are_involutions:
  "(hflip ts \<noteq> 0 \<and> xyswap ts = 0 \<longrightarrow> fst (transform_twice ts x y) = x) \<and>
   (vflip ts \<noteq> 0 \<and> xyswap ts = 0 \<longrightarrow> snd (transform_twice ts x y) = y) \<and>
   (xyswap ts \<noteq> 0 \<and> hflip ts = 0 \<and> vflip ts = 0 \<longrightarrow> transform_twice ts x y = (x, y))"
  by (simp add: transform_twice_def ft5406_transform_def Let_def)

theorem flips_and_swap_are_involutions_witness:
  "(hflip panel_hflip \<noteq> 0 \<and> xyswap panel_hflip = 0 \<and>
      ft5406_transform panel_hflip 100 200 = (699, 200) \<and>
      fst (transform_twice panel_hflip 100 200) = 100) \<and>
   (vflip panel_vflip \<noteq> 0 \<and> xyswap panel_vflip = 0 \<and>
      ft5406_transform panel_vflip 100 200 = (100, 279) \<and>
      snd (transform_twice panel_vflip 100 200) = 200) \<and>
   (xyswap panel_swap \<noteq> 0 \<and> hflip panel_swap = 0 \<and> vflip panel_swap = 0 \<and>
      ft5406_transform panel_swap 100 200 = (200, 100) \<and>
      transform_twice panel_swap 100 200 = (100, 200))"
proof -
  have c: "hflip panel_hflip \<noteq> 0" "xyswap panel_hflip = 0"
    "vflip panel_vflip \<noteq> 0" "xyswap panel_vflip = 0"
    "xyswap panel_swap \<noteq> 0" "hflip panel_swap = 0" "vflip panel_swap = 0"
    by (simp_all add: panel_hflip_def panel_vflip_def panel_swap_def panel_def)
  have t: "ft5406_transform panel_hflip 100 200 = (699, 200)"
    "ft5406_transform panel_vflip 100 200 = (100, 279)"
    "ft5406_transform panel_swap 100 200 = (200, 100)"
    by (simp_all add: ft5406_transform_def panel_hflip_def panel_vflip_def panel_swap_def panel_def)
  show ?thesis
    using c t
      flips_and_swap_are_involutions [of panel_hflip 100 200]
      flips_and_swap_are_involutions [of panel_vflip 100 200]
      flips_and_swap_are_involutions [of panel_swap 100 200]
    by simp
qed

section \<open>A point count above ten\<close>

text \<open>
  C2: the specification asks that a \<open>num_points\<close> above 10 (other than 99) be clamped
  to 10, so that the array of ten records is never read past its end. The first loop has
  no such clamp: with \<open>num_points = 11\<close> it reads \<open>regs.point[10]\<close>, one record past
  the array of ten.
\<close>

theorem point_count_eleven_reads_past_array:
  "regs_wf (frame 11 []) \<and> num_points (frame 11 []) = 11 \<and>
   read_point (frame 11 []) 10 = Inl OutOfBoundsRead \<and>
   ft5406_cycle panel 0 (frame 11 []) = Inl OutOfBoundsRead"
proof -
  have "ft5406_cycle panel 0 (frame 11 []) = Inl OutOfBoundsRead"
    by code_simp
  then show ?thesis
    by (simp add: regs_wf_def frame_def read_point_def MAXIMUM_SUPPORTED_POINTS_def)
qed

lemma point_count_above_array:
  assumes "regs_wf regs" "MAXIMUM_SUPPORTED_POINTS < unat (num_points regs)"
    "num_points regs \<noteq> 99"
  shows "ft5406_cycle ts known regs = Inl OutOfBoundsRead"
proof -
  from assms(2) have "num_points regs \<noteq> 0" by auto
  with assms show ?thesis
    by (intro cycle_out_of_range) (simp_all add: regs_wf_def)
qed

lemma frame_in_contract_returns:
  assumes "frame_in_contract regs"
  shows "\<exists>k' evs. ft5406_cycle ts known regs = Inr (k', evs)"
proof (cases "num_points regs = 99 \<or> (num_points regs = 0 \<and> known = 0)")
  case True
  then show ?thesis by (simp add: ft5406_cycle_def)
next
  case False
  with assms have "unat (num_points regs) \<le> length (point regs)"
    by (auto simp add: frame_in_contract_def regs_wf_def)
  from cycle_processed [OF False this] show ?thesis by blast
qed

section \<open>The enable attribute\<close>

text \<open>
  C5: the specification asks that a write whose start or stop fails return an error. In
  \<open>enable_store\<close> both failure paths jump to \<open>out\<close> and return \<open>count\<close>, as a
  successful write does; only the parse error is returned. With the device enabled,
  writing 0 while \<open>kthread_stop\<close> fails with -4 returns the count 2; with the device
  disabled, writing 1 while \<open>kthread_run\<close> fails with the error pointer -12 returns
  the count 2; a parse error -22 is returned as -22.
\<close>

theorem failed_transition_returns_count:
  "enable_store panel (Inr 0) 2 NULL_task (- 4) = (2, panel) \<and>
   enable_store (panel\<lparr>enable := False\<rparr>) (Inr 1) 2 (ERR_PTR (- 12)) 0 =
     (2, panel\<lparr>thread := ERR_PTR (- 12), enable := False\<rparr>) \<and>
   enable_store panel (Inl (- 22)) 2 NULL_task 0 = (- 22, panel)"
  by (simp add: enable_store_def panel_def)

lemma enable_store_same_value:
  "enable ts = (val \<noteq> 0) \<Longrightarrow> enable_store ts (Inr val) count run_res stop_res = (count, ts)"
  by (simp add: enable_store_def)

lemma enable_store_failed_transition:
  assumes "enable ts \<noteq> (val \<noteq> 0)"
    and "if val \<noteq> 0 then IS_ERR run_res else stop_res \<noteq> 0"
  shows "fst (enable_store ts (Inr val) count run_res stop_res) = count \<and>
         enable (snd (enable_store ts (Inr val) count run_res stop_res)) = enable ts"
  using assms by (simp add: enable_store_def Let_def split: if_splits)

section \<open>The modified set and the releases across cycles\<close>

lemma cycle_modified_is_known:
  assumes "ft5406_cycle ts known regs = Inr (k', evs)"
    and "\<not> (num_points regs = 99 \<or> (num_points regs = 0 \<and> known = 0))"
  shows "point_loop ts regs 0 0 [] =
           Inr (k', concat (map (point_calls ts) (visited_points regs)))"
  using assms(1)
proof (cases rule: cycle_Inr_cases)
  case skipped
  with assms(2) show ?thesis by simp
next
  case processed
  from point_loop_in_range [OF processed(2), of ts 0 0 "[]"] show ?thesis
    by (simp add: processed(3))
qed

text \<open>
  C1, as the code has it: the first loop puts the id of every visited record into
  \<open>modified_ids\<close>, before it looks at the kind. So the set holds the ids of all the
  records, of any kind; only Down and Contact records get a position update; and the id
  of a visited record, also of an Up record, is not released in this cycle and stays in
  \<open>known_ids\<close>.
\<close>

theorem modified_set_holds_every_kind:
  assumes "ft5406_cycle ts known regs = Inr (k', evs)"
    and "\<not> (num_points regs = 99 \<or> (num_points regs = 0 \<and> known = 0))"
  shows "(\<exists>out. point_loop ts regs 0 0 [] = Inr (k', out)) \<and>
    (\<forall>j. bit k' j \<longleftrightarrow> j \<in> point_touchid ` set (visited_points regs)) \<and>
    set (updated_slots c evs) =
      point_touchid ` {p \<in> set (visited_points regs). down_or_contact p} \<and>
    (\<forall>p \<in> set (visited_points regs).
       bit k' (point_touchid p) \<and> point_touchid p \<notin> set (released_slots c evs))"
proof -
  from assms(1) have k: "k' = modified_mask (visited_points regs) 0"
    using assms(2) by (cases rule: cycle_Inr_cases) simp_all
  have b: "bit k' j \<longleftrightarrow> j \<in> point_touchid ` set (visited_points regs)" for j
    by (simp add: k bit_modified_mask)
  have r: "point_touchid p \<notin> set (released_slots c evs)" if "p \<in> set (visited_points regs)" for p
  proof
    assume "point_touchid p \<in> set (released_slots c evs)"
    with assms(2) have "bit (known AND NOT k') (point_touchid p)"
      by (auto simp add: cycle_released_slots [OF assms(1)])
    moreover from that have "bit k' (point_touchid p)" by (simp add: b)
    ultimately show False by (simp add: bit_and_iff bit_not_iff)
  qed
  from cycle_modified_is_known [OF assms]
  have "\<exists>out. point_loop ts regs 0 0 [] = Inr (k', out)" by blast
  moreover from assms(2)
  have "set (updated_slots c evs) =
      point_touchid ` {p \<in> set (visited_points regs). down_or_contact p}"
    by (auto simp add: cycle_updated_slots [OF assms(1)])
  ultimately show ?thesis using b r by blast
qed

text \<open>
  With Down and Contact records only in the modified set, the property fails: id 3 is live, the snapshot has the single record of id 3
  with kind Up; the modified set is \<open>{3}\<close>, no release is made and id 3 stays live.
\<close>

theorem up_record_counts_as_modified:
  "point_event_type (touch 0x40 100 0x30 200) = FTS_TOUCH_UP \<and>
   point_touchid (touch 0x40 100 0x30 200) = 3 \<and>
   point_loop panel (frame 1 [touch 0x40 100 0x30 200]) 0 0 [] = Inr (8, []) \<and>
   ft5406_cycle panel 8 (frame 1 [touch 0x40 100 0x30 200]) =
     Inr (8, [Input_mt_report_pointer_emulation, Input_sync]) \<and>
   released_slots 0 [Input_mt_report_pointer_emulation, Input_sync] = []"
proof -
  have "point_loop panel (frame 1 [touch 0x40 100 0x30 200]) 0 0 [] = Inr (8, [])"
    by code_simp
  moreover have "ft5406_cycle panel 8 (frame 1 [touch 0x40 100 0x30 200]) =
     Inr (8, [Input_mt_report_pointer_emulation, Input_sync])"
    by code_simp
  ultimately show ?thesis
    by (simp add: point_event_type_def point_touchid_def touch_def FTS_TOUCH_UP_def
        released_slots_def)
qed

theorem modified_set_holds_every_kind_witness:
  "ft5406_cycle panel 8 (frame 1 [touch 0x40 100 0x30 200]) =
     Inr (8, [Input_mt_report_pointer_emulation, Input_sync]) \<and>
   \<not> (num_points (frame 1 [touch 0x40 100 0x30 200]) = 99 \<or>
      (num_points (frame 1 [touch 0x40 100 0x30 200]) = 0 \<and> (8 :: c_int) = 0)) \<and>
   touch 0x40 100 0x30 200 \<in> set (visited_points (frame 1 [touch 0x40 100 0x30 200])) \<and>
   bit (8 :: c_int) (point_touchid (touch 0x40 100 0x30 200)) \<and>
   point_touchid (touch 0x40 100 0x30 200) \<notin>
     set (released_slots 0 [Input_mt_report_pointer_emulation, Input_sync])"
proof -
  let ?f = "frame 1 [touch 0x40 100 0x30 200]"
  have h: "ft5406_cycle panel 8 ?f = Inr (8, [Input_mt_report_pointer_emulation, Input_sync])"
    by code_simp
  have n: "\<not> (num_points ?f = 99 \<or> (num_points ?f = 0 \<and> (8 :: c_int) = 0))"
    by (simp add: frame_def)
  have v: "touch 0x40 100 0x30 200 \<in> set (visited_points ?f)"
    by (simp add: visited_points_def frame_def)
  from modified_set_holds_every_kind [OF h n, of 0] v
  have "bit (8 :: c_int) (point_touchid (touch 0x40 100 0x30 200)) \<and>
     point_touchid (touch 0x40 100 0x30 200) \<notin>
       set (released_slots 0 [Input_mt_report_pointer_emulation, Input_sync])"
    by blast
  with h n v show ?thesis by blast
qed

subsection \<open>Exactly one release\<close>

lemma count_list_filter_upt:
  "i < n \<Longrightarrow> P i \<Longrightarrow> count_list (filter P [0..<n]) i = 1"
proof (induction n)
  case 0
  then show ?case by simp
next
  case (Suc n)
  show ?case
  proof (cases "i = n")
    case True
    then have "i \<notin> set (filter P [0..<n])" by simp
    with True Suc.prems show ?thesis by simp
  next
    case False
    with Suc.prems have "i < n" by simp
    with Suc.IH Suc.prems False show ?thesis by simp
  qed
qed

lemma cycle_keeps_absent_id_out:
  assumes "ft5406_cycle ts k r = Inr (k', evs)" and "\<not> bit k i"
    and "num_points r = 99 \<or> i \<notin> point_touchid ` set (visited_points r)"
  shows "\<not> bit k' i \<and> i \<notin> set (released_slots c evs)"
proof -
  have "i \<notin> set (released_slots c evs)"
    using assms(2) by (auto simp add: cycle_released_slots [OF assms(1)] bit_and_iff)
  moreover have "\<not> bit k' i"
    using assms(1)
  proof (cases rule: cycle_Inr_cases)
    case skipped
    with assms(2) show ?thesis by simp
  next
    case processed
    with assms(3) show ?thesis by (simp add: bit_modified_mask)
  qed
  ultimately show ?thesis by simp
qed

lemma run_keeps_absent_id_out:
  assumes "\<not> bit k i"
    and "\<forall>r \<in> set frames. frame_in_contract r \<and>
           (num_points r = 99 \<or> i \<notin> point_touchid ` set (visited_points r))"
  shows "\<exists>k' evs. ft5406_run ts k frames = Inr (k', evs) \<and> \<not> bit k' i \<and>
           (\<forall>c. i \<notin> set (released_slots c evs))"
  using assms
proof (induction frames arbitrary: k)
  case Nil
  then show ?case by (simp add: released_slots_def)
next
  case (Cons r rest)
  from Cons.prems(2) have fc: "frame_in_contract r" by simp
  from frame_in_contract_returns [OF fc, of ts k]
  obtain k1 evs1 where c1: "ft5406_cycle ts k r = Inr (k1, evs1)" by blast
  from Cons.prems(2)
  have ab: "num_points r = 99 \<or> i \<notin> point_touchid ` set (visited_points r)" by simp
  note st = cycle_keeps_absent_id_out [OF c1 Cons.prems(1) ab]
  from st have nb: "\<not> bit k1 i" by simp
  from Cons.prems(2)
  have "\<forall>r \<in> set rest. frame_in_contract r \<and>
           (num_points r = 99 \<or> i \<notin> point_touchid ` set (visited_points r))" by simp
  from Cons.IH [OF nb this]
  obtain k2 evs2 where c2: "ft5406_run ts k1 rest = Inr (k2, evs2)" and nb2: "\<not> bit k2 i"
    and nr2: "\<forall>c. i \<notin> set (released_slots c evs2)" by blast
  have run: "ft5406_run ts k (r # rest) = Inr (k2, evs1 @ evs2)"
    by (simp add: c1 c2)
  have "i \<notin> set (released_slots c (evs1 @ evs2))" for c
    using released_slots_append_cases [of i c evs1 evs2] st nr2 by blast
  with run nb2 show ?case by blast
qed

text \<open>
  C4, for the slots the driver has: let slot \<open>i\<close>, below 10, get a position update in
  one cycle (a Down or Contact record), and let the next snapshot be processed with a
  modified set that does not hold \<open>i\<close>. Then that cycle makes exactly one release for
  \<open>i\<close>; and over any further snapshots within the contract in which \<open>i\<close> does not
  appear, the thread runs on and makes no release for \<open>i\<close>.
\<close>

theorem released_exactly_once:
  assumes "ft5406_cycle ts k0 r0 = Inr (k1, evs0)"
    and "i \<in> set (updated_slots c0 evs0)"
    and "i < MAXIMUM_SUPPORTED_POINTS"
    and "num_points r1 \<noteq> 99"
    and "point_loop ts r1 0 0 [] = Inr (m1, out1)"
    and "\<not> bit m1 i"
  shows "\<exists>k2 evs1. ft5406_cycle ts k1 r1 = Inr (k2, evs1) \<and>
      count_list (released_slots c1 evs1) i = 1 \<and>
      (\<forall>frames.
         (\<forall>r \<in> set frames. frame_in_contract r \<and>
            (num_points r = 99 \<or> i \<notin> point_touchid ` set (visited_points r))) \<longrightarrow>
         (\<exists>k3 evs. ft5406_run ts k2 frames = Inr (k3, evs) \<and>
            i \<notin> set (released_slots c2 evs)))"
proof -
  have live: "bit k1 i"
    using assms(1)
  proof (cases rule: cycle_Inr_cases)
    case skipped
    with assms(2) show ?thesis by (simp add: updated_slots_def)
  next
    case processed
    from assms(2) processed(1) have "i \<in> point_touchid ` set (visited_points r0)"
      by (auto simp add: cycle_updated_slots [OF assms(1)])
    then show ?thesis by (simp add: processed(3) bit_modified_mask)
  qed
  then have k1nz: "k1 \<noteq> 0" by auto
  with assms(4) have ns: "\<not> (num_points r1 = 99 \<or> (num_points r1 = 0 \<and> k1 = 0))" by simp
  from point_loop_Inr_in_range [OF assms(5)]
  have le: "unat (num_points r1) \<le> length (point r1)"
    and m1: "m1 = modified_mask (visited_points r1) 0" by simp_all
  let ?evs1 = "concat (map (point_calls ts) (visited_points r1)) @
          concat (map release_calls
            (filter (bit (k1 AND NOT m1)) [0..<MAXIMUM_SUPPORTED_POINTS])) @
          [Input_mt_report_pointer_emulation, Input_sync]"
  have c1: "ft5406_cycle ts k1 r1 = Inr (m1, ?evs1)"
    using cycle_processed [OF ns le, of ts] by (simp add: m1)
  have rel: "released_slots c1 ?evs1 =
      filter (bit (k1 AND NOT m1)) [0..<MAXIMUM_SUPPORTED_POINTS]"
    using ns by (simp add: cycle_released_slots [OF c1])
  have "bit (k1 AND NOT m1) i"
    using live assms(6) by (auto simp add: bit_and_iff bit_not_iff dest: bit_imp_le_length)
  with assms(3) have one: "count_list (released_slots c1 ?evs1) i = 1"
    unfolding rel by (intro count_list_filter_upt)
  have later: "\<exists>k3 evs. ft5406_run ts m1 frames = Inr (k3, evs) \<and>
            i \<notin> set (released_slots c2 evs)"
    if "\<forall>r \<in> set frames. frame_in_contract r \<and>
            (num_points r = 99 \<or> i \<notin> point_touchid ` set (visited_points r))" for frames
    using run_keeps_absent_id_out [OF assms(6) that, of ts] by blast
  from c1 one later show ?thesis by blast
qed

text \<open>
  Stated for every id, the property fails at id 12: it gets a position update in one
  cycle, is absent from the next snapshot, and that cycle makes no release for it.
\<close>

theorem id_twelve_gets_no_release:
  "ft5406_cycle panel 0 (frame 1 [touch 0 100 0xC0 200]) =
     Inr (0x1000, update_calls 12 100 200 @ [Input_mt_report_pointer_emulation, Input_sync]) \<and>
   point_loop panel (frame 0 []) 0 0 [] = Inr (0, []) \<and>
   ft5406_cycle panel 0x1000 (frame 0 []) =
     Inr (0, [Input_mt_report_pointer_emulation, Input_sync]) \<and>
   count_list (released_slots 0 [Input_mt_report_pointer_emulation, Input_sync]) 12 = 0"
proof -
  have "ft5406_cycle panel 0 (frame 1 [touch 0 100 0xC0 200]) =
     Inr (0x1000, update_calls 12 100 200 @ [Input_mt_report_pointer_emulation, Input_sync])"
    by code_simp
  moreover have "point_loop panel (frame 0 []) 0 0 [] = Inr (0, [])"
    by code_simp
  moreover have "ft5406_cycle panel 0x1000 (frame 0 []) =
     Inr (0, [Input_mt_report_pointer_emulation, Input_sync])"
    by code_simp
  ultimately show ?thesis by (simp add: released_slots_def)
qed

theorem released_exactly_once_witness:
  "ft5406_cycle panel 0 (frame 1 [touch 0 100 0x30 200]) =
     Inr (8, update_calls 3 100 200 @ [Input_mt_report_pointer_emulation, Input_sync]) \<and>
   3 \<in> set (updated_slots 0
          (update_calls 3 100 200 @ [Input_mt_report_pointer_emulation, Input_sync])) \<and>
   3 < MAXIMUM_SUPPORTED_POINTS \<and>
   num_points (frame 0 []) \<noteq> 99 \<and>
   point_loop panel (frame 0 []) 0 0 [] = Inr (0, []) \<and>
   \<not> bit (0 :: c_int) 3 \<and>
   frame_in_contract (frame 0 []) \<and>
   3 \<notin> point_touchid ` set (visited_points (frame 0 [])) \<and>
   frame_in_contract (frame 99 []) \<and> num_points (frame 99 []) = 99 \<and>
   (\<exists>k2 evs1. ft5406_cycle panel 8 (frame 0 []) = Inr (k2, evs1) \<and>
      count_list (released_slots 0 evs1) 3 = 1 \<and>
      (\<exists>k3 evs. ft5406_run panel k2 [frame 0 [], frame 99 []] = Inr (k3, evs) \<and>
         3 \<notin> set (released_slots 0 evs)))"
proof -
  have h0: "ft5406_cycle panel 0 (frame 1 [touch 0 100 0x30 200]) =
     Inr (8, update_calls 3 100 200 @ [Input_mt_report_pointer_emulation, Input_sync])"
    by code_simp
  have u: "3 \<in> set (updated_slots 0
          (update_calls 3 100 200 @ [Input_mt_report_pointer_emulation, Input_sync]))"
    by (simp add: updated_slots_def update_calls_def)
  have lt: "3 < MAXIMUM_SUPPORTED_POINTS"
    by (simp add: MAXIMUM_SUPPORTED_POINTS_def)
  have n: "num_points (frame 0 []) \<noteq> 99"
    by (simp add: frame_def)
  have pl: "point_loop panel (frame 0 []) 0 0 [] = Inr (0, [])"
    by code_simp
  have nb: "\<not> bit (0 :: c_int) 3"
    by simp
  have fr: "\<forall>r \<in> set [frame 0 [], frame 99 []]. frame_in_contract r \<and>
      (num_points r = 99 \<or> 3 \<notin> point_touchid ` set (visited_points r))"
    by (simp add: frame_in_contract_def regs_wf_def frame_def visited_points_def
        MAXIMUM_SUPPORTED_POINTS_def)
  from released_exactly_once [OF h0 u lt n pl nb, of 0 0]
  obtain k2 evs1 where c: "ft5406_cycle panel 8 (frame 0 []) = Inr (k2, evs1)"
    and one: "count_list (released_slots 0 evs1) 3 = 1"
    and later: "\<forall>frames.
         (\<forall>r \<in> set frames. frame_in_contract r \<and>
            (num_points r = 99 \<or> 3 \<notin> point_touchid ` set (visited_points r))) \<longrightarrow>
         (\<exists>k3 evs. ft5406_run panel k2 frames = Inr (k3, evs) \<and>
            3 \<notin> set (released_slots 0 evs))"
    by blast
  from later fr
  have "\<exists>k3 evs. ft5406_run panel k2 [frame 0 [], frame 99 []] = Inr (k3, evs) \<and>
         3 \<notin> set (released_slots 0 evs)"
    by blast
  with c one have "\<exists>k2 evs1. ft5406_cycle panel 8 (frame 0 []) = Inr (k2, evs1) \<and>
      count_list (released_slots 0 evs1) 3 = 1 \<and>
      (\<exists>k3 evs. ft5406_run panel k2 [frame 0 [], frame 99 []] = Inr (k3, evs) \<and>
         3 \<notin> set (released_slots 0 evs))"
    by blast
  moreover have "frame_in_contract (frame 0 [])" "frame_in_contract (frame 99 [])"
    "3 \<notin> point_touchid ` set (visited_points (frame 0 []))" "num_points (frame 99 []) = 99"
    by (simp_all add: frame_in_contract_def regs_wf_def frame_def visited_points_def
        MAXIMUM_SUPPORTED_POINTS_def)
  ultimately show ?thesis using h0 u lt n pl nb by blast
qed

end
